theory Spec2Isabelle
  imports Main "HOL-Library.Log_Nat" "HOL-Library.Code_Target_Nat"
begin

section \<open>go-occupy: the resource monitor of \<^verbatim>\<open>pkg/occupy/occupy.go\<close>\<close>

text \<open>
  The development embeds the resource monitor of \<^verbatim>\<open>pkg/occupy/occupy.go\<close> and, where
  a property is about it, the older single-file monitor (\<^verbatim>\<open>package main\<close>, the
  second Go file of the repository). Definitions keep the names of the Go functions; the
  ones taken from the single-file monitor carry the prefix \<open>main_\<close>.
\<close>

subsection \<open>Finite \<^verbatim>\<open>float64\<close> values\<close>

text \<open>
  A finite \<^verbatim>\<open>float64\<close> is the rational number it denotes. Every arithmetic
  operation is the exact operation followed by \<open>fl\<close>, IEEE 754 binary64 rounding to
  nearest with ties to even (53 significant bits, least exponent \<open>-1074\<close>).
  Infinities and NaN are outside the model, and so is overflow beyond \<open>2 ^ 1024\<close>.
  Comparisons of finite values are exact.
\<close>

type_synonym float64 = rat

definition pow2 :: "int \<Rightarrow> rat" where
  "pow2 e = (if 0 \<le> e then 2 ^ nat e else 1 / 2 ^ nat (- e))"

definition ilog2 :: "rat \<Rightarrow> int" where
  \<comment> \<open>\<open>\<lfloor>log\<^sub>2 x\<rfloor>\<close> for \<open>0 < x\<close>\<close>
  "ilog2 x = (let d = bitlen (fst (quotient_of x)) - bitlen (snd (quotient_of x))
              in if pow2 d \<le> x then d else d - 1)"

definition round_half_even :: "rat \<Rightarrow> int" where
  "round_half_even x = (let f = \<lfloor>x\<rfloor>; r = x - of_int f in
     if r < 1 / 2 then f else if 1 / 2 < r then f + 1 else if even f then f else f + 1)"

definition fl :: "rat \<Rightarrow> float64" where
  "fl x = (if x = 0 then 0 else
     let e = max (ilog2 \<bar>x\<bar> - 52) (- 1074)
     in of_int (round_half_even (x / pow2 e)) * pow2 e)"

definition fadd :: "float64 \<Rightarrow> float64 \<Rightarrow> float64" where
  "fadd a b = fl (a + b)"

definition fsub :: "float64 \<Rightarrow> float64 \<Rightarrow> float64" where
  "fsub a b = fl (a - b)"

definition fmul :: "float64 \<Rightarrow> float64 \<Rightarrow> float64" where
  "fmul a b = fl (a * b)"

definition fdiv :: "float64 \<Rightarrow> float64 \<Rightarrow> float64" where
  "fdiv a b = fl (a / b)"

definition trunc :: "rat \<Rightarrow> int" where
  \<comment> \<open>rounding toward zero, as Go's conversions from a float to an integer type do\<close>
  "trunc x = (if 0 \<le> x then \<lfloor>x\<rfloor> else \<lceil>x\<rceil>)"

definition u64 :: "nat \<Rightarrow> nat" where
  \<comment> \<open>a \<^verbatim>\<open>uint64\<close> result: arithmetic wraps modulo \<open>2 ^ 64\<close>\<close>
  "u64 n = n mod 2 ^ 64"

definition u64_sub :: "nat \<Rightarrow> nat \<Rightarrow> nat" where
  "u64_sub a b = (a + 2 ^ 64 - b mod 2 ^ 64) mod 2 ^ 64"

definition uint64_of_float64 :: "float64 \<Rightarrow> nat" where
  \<comment> \<open>\<^verbatim>\<open>uint64(x)\<close>: the truncation of \<open>x\<close> when it lies in \<open>[0, 2 ^ 64)\<close>. Outside, Go
      leaves the result to the implementation; the model wraps.\<close>
  "uint64_of_float64 x = nat (trunc x mod 2 ^ 64)"

definition int_of_float64 :: "float64 \<Rightarrow> int" where
  \<comment> \<open>\<^verbatim>\<open>int(x)\<close> on a 64-bit platform, with the same convention outside the range\<close>
  "int_of_float64 x = (trunc x + 2 ^ 63) mod 2 ^ 64 - 2 ^ 63"

definition float64_of_uint64 :: "nat \<Rightarrow> float64" where
  "float64_of_uint64 n = fl (of_nat n)"

definition float64_of_int :: "int \<Rightarrow> float64" where
  "float64_of_int n = fl (of_int n)"

subsection \<open>Decimal printing and the names of padding files\<close>

function show_nat :: "nat \<Rightarrow> string" where
  "show_nat n = (if n < 10 then [char_of (48 + n)]
                 else show_nat (n div 10) @ [char_of (48 + n mod 10)])"
  by pat_completeness auto
termination
  by (relation "measure id") auto

definition show_int :: "int \<Rightarrow> string" where
  \<comment> \<open>the verb \<^verbatim>\<open>%d\<close> of \<^verbatim>\<open>fmt.Sprintf\<close>\<close>
  "show_int i = (if i < 0 then CHR ''-'' # show_nat (nat (- i)) else show_nat (nat i))"

definition tempFileName :: "int \<Rightarrow> int \<Rightarrow> string" where
  \<comment> \<open>\<^verbatim>\<open>fmt.Sprintf("go_occupy_temp_%d_%d.dat", time.Now().Unix(), fileIndex)\<close>\<close>
  "tempFileName now fileIndex =
     ''go_occupy_temp_'' @ show_int now @ ''_'' @ show_int fileIndex @ ''.dat''"

definition isTempFile :: "string \<Rightarrow> bool" where
  \<comment> \<open>a file name of the temporary directory matches the pattern
      \<^verbatim>\<open>go_occupy_temp_*.dat\<close> of \<^verbatim>\<open>filepath.Glob\<close>: the star stands for any
      run of characters, a name holding no separator\<close>
  "isTempFile name =
     (19 \<le> length name \<and> take 15 name = ''go_occupy_temp_''
      \<and> drop (length name - 4) name = ''.dat'')"

subsection \<open>The monitor and its surroundings\<close>

record ResourceConfig =
  MemoryPercent :: float64
  CPUPercent :: float64
  DiskPercent :: float64

datatype call =
    CallAdjustDiskUsage | CallAdjustMemoryUsage | CallAdjustCPUUsage
  | CallStopCPULoad | CallCleanupMemory | CallCleanupAllTempFiles | CallCloseCleanupDone

text \<open>
  The state holds the fields of \<^verbatim>\<open>ResourceMonitor\<close> and what the monitor acts on.
  A channel that is only ever closed (\<open>stop\<close>, \<open>cleanupDone\<close>) is the flag "closed".
  A memory chunk is its length in bytes: no operation reads the bytes. The CPU workers
  are the two counters and the flag the monitor keeps about them. \<open>files\<close> lists the
  regular files of the temporary directory with their sizes, \<open>undeletable\<close> the names
  on which \<^verbatim>\<open>os.Remove\<close> fails and \<open>badPattern\<close> says that \<^verbatim>\<open>filepath.Glob\<close>
  rejects the pattern built from the directory's name. \<open>numCPU\<close> is
  \<^verbatim>\<open>runtime.NumCPU()\<close>. \<open>trace\<close> is instrumentation: the calls of the tick and of
  the shutdown path in program order; no operation reads it.
\<close>

record state =
  Config :: ResourceConfig
  stop :: bool
  cleanupDone :: bool
  ActiveCPULoad :: bool
  targetCPUWorkers :: int
  currentCPUWorkers :: int
  AllocatedMemory :: "nat list"
  files :: "(string \<times> nat) list"
  undeletable :: "string list"
  badPattern :: bool
  numCPU :: int
  trace :: "call list"

definition NewResourceMonitor :: "ResourceConfig \<Rightarrow> (string \<times> nat) list \<Rightarrow> string list
    \<Rightarrow> bool \<Rightarrow> int \<Rightarrow> state" where
  "NewResourceMonitor config fs locked bad ncpu =
     \<lparr>Config = config, stop = False, cleanupDone = False, ActiveCPULoad = False,
      targetCPUWorkers = 0, currentCPUWorkers = 0, AllocatedMemory = [],
      files = fs, undeletable = locked, badPattern = bad, numCPU = ncpu, trace = []\<rparr>"

subsection \<open>Memory\<close>

definition getTotalAllocatedMemory :: "nat list \<Rightarrow> nat" where
  "getTotalAllocatedMemory chunks = fold (\<lambda>memory total. u64 (total + memory)) chunks 0"

definition chunkSize :: nat where
  "chunkSize = 100 * 1024 * 1024"

function allocateMemory_loop :: "nat \<Rightarrow> nat list \<Rightarrow> nat list" where
  "allocateMemory_loop remainingBytes chunks =
     (if remainingBytes > 0 then
        allocateMemory_loop
          (remainingBytes - (if remainingBytes < chunkSize then remainingBytes else chunkSize))
          (chunks @ [if remainingBytes < chunkSize then remainingBytes else chunkSize])
      else chunks)"
  by pat_completeness auto
termination
  by (relation "measure fst") (auto simp: chunkSize_def)

definition allocateMemory :: "nat \<Rightarrow> state \<Rightarrow> state" where
  "allocateMemory bytes s = s\<lparr>AllocatedMemory := allocateMemory_loop bytes (AllocatedMemory s)\<rparr>"

text \<open>
  The loop of \<^verbatim>\<open>releaseMemory\<close>: \<open>i\<close> runs down from the last index while bytes remain
  to be released. A chunk that fits is cut off the list; one that does not is resliced
  to \<^verbatim>\<open>[:remainingBytes]\<close>, that is, it keeps its first \<open>remainingBytes\<close> bytes.
\<close>

function releaseMemory_loop :: "nat \<Rightarrow> int \<Rightarrow> nat \<Rightarrow> nat list \<Rightarrow> nat list" where
  "releaseMemory_loop targetReleaseBytes i releasedBytes chunks =
     (if 0 \<le> i \<and> releasedBytes < targetReleaseBytes then
        if u64 (releasedBytes + chunks ! nat i) \<le> targetReleaseBytes then
          releaseMemory_loop targetReleaseBytes (i - 1)
            (u64 (releasedBytes + chunks ! nat i)) (take (nat i) chunks)
        else
          releaseMemory_loop targetReleaseBytes (i - 1)
            (u64 (releasedBytes + u64_sub targetReleaseBytes releasedBytes))
            (chunks[nat i := u64_sub targetReleaseBytes releasedBytes])
      else chunks)"
  by pat_completeness auto
termination
  by (relation "measure (\<lambda>(t, i, r, c). nat (i + 1))") auto

definition releaseMemory_bytes :: "nat \<Rightarrow> nat list \<Rightarrow> nat list" where
  \<comment> \<open>the body of \<^verbatim>\<open>releaseMemory\<close> from the clamp on, for a requested byte count\<close>
  "releaseMemory_bytes targetReleaseBytes chunks =
     (let currentAllocated = getTotalAllocatedMemory chunks;
          target = (if targetReleaseBytes > currentAllocated then currentAllocated
                    else targetReleaseBytes)
      in releaseMemory_loop target (int (length chunks) - 1) 0 chunks)"

definition targetReleaseBytes :: "float64 \<Rightarrow> nat \<Rightarrow> state \<Rightarrow> nat" where
  \<comment> \<open>\<open>targetReleaseBytes\<close> of \<^verbatim>\<open>releaseMemory\<close> before the clamp\<close>
  "targetReleaseBytes currentPercent memTotal s =
     uint64_of_float64
       (fmul (fdiv (fsub currentPercent (MemoryPercent (Config s))) 100)
          (float64_of_uint64 memTotal))"

definition releaseMemory :: "float64 \<Rightarrow> nat \<Rightarrow> state \<Rightarrow> state" where
  "releaseMemory currentPercent memTotal s =
     (if length (AllocatedMemory s) = 0 then s
      else s\<lparr>AllocatedMemory :=
        releaseMemory_bytes (targetReleaseBytes currentPercent memTotal s)
          (AllocatedMemory s)\<rparr>)"

definition adjustTargetBytes :: "float64 \<Rightarrow> float64 \<Rightarrow> nat \<Rightarrow> nat" where
  \<comment> \<open>\<open>targetBytes\<close> of \<^verbatim>\<open>adjustMemoryUsage\<close> and of \<^verbatim>\<open>adjustDiskUsage\<close>:
      \<^verbatim>\<open>uint64((target - currentPercent) / 100.0 * float64(info.Total))\<close>\<close>
  "adjustTargetBytes target currentPercent infoTotal =
     uint64_of_float64
       (fmul (fdiv (fsub target currentPercent) 100) (float64_of_uint64 infoTotal))"

definition adjustMemoryUsage :: "float64 \<Rightarrow> nat \<Rightarrow> state \<Rightarrow> state" where
  "adjustMemoryUsage currentPercent memTotal s =
     (if currentPercent < MemoryPercent (Config s) then
        allocateMemory (adjustTargetBytes (MemoryPercent (Config s)) currentPercent memTotal) s
      else if currentPercent > fadd (MemoryPercent (Config s)) 5 then
        releaseMemory currentPercent memTotal s
      else s)"

definition cleanupMemory :: "state \<Rightarrow> state" where
  "cleanupMemory s = (if length (AllocatedMemory s) = 0 then s else s\<lparr>AllocatedMemory := []\<rparr>)"

subsection \<open>CPU load\<close>

text \<open>
  The worker goroutines are not modelled beyond what the monitor records about them.
  Waiting for them (at most three seconds) changes no field.
\<close>

definition startCPULoadInternal :: "state \<Rightarrow> state" where
  "startCPULoadInternal s =
     (if ActiveCPULoad s then s
      else s\<lparr>ActiveCPULoad := True, currentCPUWorkers := targetCPUWorkers s\<rparr>)"

definition stopCPULoadInternal :: "state \<Rightarrow> state" where
  "stopCPULoadInternal s =
     (if \<not> ActiveCPULoad s then s
      else s\<lparr>ActiveCPULoad := False, currentCPUWorkers := 0\<rparr>)"

definition stopCPULoad :: "state \<Rightarrow> state" where
  "stopCPULoad s = (if ActiveCPULoad s then stopCPULoadInternal s else s)"

definition adjustCPUWorkers :: "int \<Rightarrow> state \<Rightarrow> state" where
  "adjustCPUWorkers targetWorkers s =
     (if targetCPUWorkers s = targetWorkers then s
      else if targetWorkers = 0 then
        (if ActiveCPULoad s then stopCPULoadInternal (s\<lparr>targetCPUWorkers := targetWorkers\<rparr>)
         else s\<lparr>targetCPUWorkers := targetWorkers\<rparr>)
      else if \<not> ActiveCPULoad s then
        startCPULoadInternal (s\<lparr>targetCPUWorkers := targetWorkers\<rparr>)
      else if currentCPUWorkers s \<noteq> targetWorkers then
        startCPULoadInternal (stopCPULoadInternal (s\<lparr>targetCPUWorkers := targetWorkers\<rparr>))
      else s\<lparr>targetCPUWorkers := targetWorkers\<rparr>)"

definition cpuTargetWorkers :: "state \<Rightarrow> int" where
  \<comment> \<open>\<open>targetWorkers\<close> of the first branch of \<^verbatim>\<open>adjustCPUUsage\<close>, after both clamps\<close>
  "cpuTargetWorkers s =
     (let t0 = int_of_float64
                 (fmul (fdiv (CPUPercent (Config s)) 100) (float64_of_int (numCPU s)));
          t1 = (if t0 < 1 then 1 else t0)
      in if t1 > numCPU s then numCPU s else t1)"

definition adjustCPUUsage :: "float64 \<Rightarrow> state \<Rightarrow> state" where
  "adjustCPUUsage currentPercent s =
     (if currentPercent < fsub (CPUPercent (Config s)) 5 then
        adjustCPUWorkers (cpuTargetWorkers s) s
      else if currentPercent > fadd (CPUPercent (Config s)) 5 then
        adjustCPUWorkers 0 s
      else s)"

subsection \<open>Disk\<close>

text \<open>
  What the operating system answers while padding files are written: whether
  \<^verbatim>\<open>os.MkdirAll\<close> fails and, for the file of each index, the clock, whether
  \<^verbatim>\<open>os.Create\<close> fails and whether \<^verbatim>\<open>file.Write\<close> fails (after how many bytes).
\<close>

record file_io =
  now :: int
  createErr :: bool
  writeErr :: "nat option"

record disk_io =
  mkdirErr :: bool
  fileIO :: "nat \<Rightarrow> file_io"

definition fileSize :: nat where
  "fileSize = 5 * 1024 * 1024 * 1024"

definition writeFile :: "string \<Rightarrow> nat \<Rightarrow> state \<Rightarrow> state" where
  \<comment> \<open>\<^verbatim>\<open>os.Create\<close> (which truncates a file of that name) followed by a write\<close>
  "writeFile name sz s =
     s\<lparr>files := filter (\<lambda>(n, _). n \<noteq> name) (files s) @ [(name, sz)]\<rparr>"

definition os_Remove :: "string \<Rightarrow> state \<Rightarrow> state" where
  "os_Remove name s =
     (if name \<in> set (undeletable s) then s
      else s\<lparr>files := filter (\<lambda>(n, _). n \<noteq> name) (files s)\<rparr>)"

function createTempFiles_loop :: "(nat \<Rightarrow> file_io) \<Rightarrow> nat \<Rightarrow> nat \<Rightarrow> state \<Rightarrow> state" where
  "createTempFiles_loop io remainingBytes fileIndex s =
     (if remainingBytes > 0 then
        if createErr (io fileIndex) then s
        else if writeErr (io fileIndex) \<noteq> None then
          os_Remove (tempFileName (now (io fileIndex)) (int fileIndex))
            (writeFile (tempFileName (now (io fileIndex)) (int fileIndex))
               (the (writeErr (io fileIndex))) s)
        else
          createTempFiles_loop io
            (remainingBytes - (if remainingBytes < fileSize then remainingBytes else fileSize))
            (fileIndex + 1)
            (writeFile (tempFileName (now (io fileIndex)) (int fileIndex))
               (if remainingBytes < fileSize then remainingBytes else fileSize) s)
      else s)"
  by pat_completeness auto
termination
  by (relation "measure (\<lambda>(io, r, i, s). r)") (auto simp: fileSize_def)

definition createTempFiles :: "disk_io \<Rightarrow> nat \<Rightarrow> state \<Rightarrow> state" where
  "createTempFiles io targetBytes s =
     (if mkdirErr io then s else createTempFiles_loop (fileIO io) targetBytes 0 s)"

definition cleanupTempFiles :: "state \<Rightarrow> state" where
  "cleanupTempFiles s =
     (if badPattern s then s
      else fold os_Remove (filter isTempFile (map fst (files s))) s)"


definition adjustDiskUsage :: "disk_io \<Rightarrow> float64 \<Rightarrow> nat \<Rightarrow> state \<Rightarrow> state" where
  "adjustDiskUsage io currentPercent diskTotal s =
     (if currentPercent < DiskPercent (Config s) then
        createTempFiles io (adjustTargetBytes (DiskPercent (Config s)) currentPercent diskTotal) s
      else if currentPercent > fadd (DiskPercent (Config s)) 5 then
        cleanupTempFiles s
      else s)"

subsection \<open>The tick\<close>

text \<open>
  What one tick meets: the answers of the four sampling calls (\<open>None\<close> is an error; a
  memory or disk answer is \<^verbatim>\<open>UsedPercent\<close> with \<^verbatim>\<open>Total\<close>; the CPU answer is
  \<^verbatim>\<open>cpuPercent[0]\<close>, \<^verbatim>\<open>cpu.Percent(0, false)\<close> returning one value), the answers of
  the operating system to the disk writes, and \<open>stopAt\<close>: when another goroutine closes
  \<open>stop\<close> during the tick, the number of the first of the eight checks of the channel
  (counted from 0) that sees it closed.
\<close>

record tick_env =
  memInfo :: "(float64 \<times> nat) option"
  cpuPercent :: "float64 option"
  diskInfo :: "(float64 \<times> nat) option"
  memInfoAfterDisk :: "(float64 \<times> nat) option"
  diskIO :: disk_io
  stopAt :: "nat option"

definition stopSeen :: "tick_env \<Rightarrow> state \<Rightarrow> nat \<Rightarrow> bool" where
  "stopSeen env s k = (stop s \<or> (case stopAt env of None \<Rightarrow> False | Some j \<Rightarrow> j \<le> k))"

definition record_call :: "call \<Rightarrow> state \<Rightarrow> state" where
  "record_call c s = s\<lparr>trace := trace s @ [c]\<rparr>"

definition monitorAndAdjust_body :: "tick_env \<Rightarrow> state \<Rightarrow> state" where
  "monitorAndAdjust_body env s =
     (if stopSeen env s 0 then s else
      case memInfo env of None \<Rightarrow> s | Some (currentMemPercent, memTotal) \<Rightarrow>
      if stopSeen env s 1 then s else
      case cpuPercent env of None \<Rightarrow> s | Some currentCPUPercent \<Rightarrow>
      if stopSeen env s 2 then s else
      case diskInfo env of None \<Rightarrow> s | Some (currentDiskPercent, diskTotal) \<Rightarrow>
      if stopSeen env s 3 then s else
      let s1 = adjustDiskUsage (diskIO env) currentDiskPercent diskTotal
                 (record_call CallAdjustDiskUsage s) in
      if stopSeen env s 4 then s1 else
      if stopSeen env s 5 then s1 else
      case memInfoAfterDisk env of None \<Rightarrow> s1 | Some (memPercentAfterDisk, memTotalAfterDisk) \<Rightarrow>
      if stopSeen env s 6 then s1 else
      let s2 = adjustMemoryUsage memPercentAfterDisk memTotalAfterDisk
                 (record_call CallAdjustMemoryUsage s1) in
      if stopSeen env s 7 then s2 else
      adjustCPUUsage currentCPUPercent (record_call CallAdjustCPUUsage s2))"

definition monitorAndAdjust :: "tick_env \<Rightarrow> state \<Rightarrow> state" where
  \<comment> \<open>the tick; afterwards \<open>stop\<close> is closed when it was before or was closed meanwhile\<close>
  "monitorAndAdjust env s =
     (monitorAndAdjust_body env s)\<lparr>stop := (stop s \<or> stopAt env \<noteq> None)\<rparr>"

subsection \<open>Start, Stop and the shutdown path\<close>




definition Stop :: "state \<Rightarrow> state" where
  \<comment> \<open>one call of \<^verbatim>\<open>Stop\<close> running alone; the wait that follows changes no field\<close>
  "Stop s = (if stop s then s else s\<lparr>stop := True\<rparr>)"

text \<open>
  Two goroutines calling \<^verbatim>\<open>Stop\<close>. A call is three atomic steps: the non-blocking
  receive from \<open>stop\<close>, \<^verbatim>\<open>close(rm.stop)\<close>, which panics on a closed channel, and the
  wait for \<open>cleanupDone\<close> or the timeout. A schedule names the goroutine that takes
  the next step.
\<close>

datatype pc = AtReceive | AtClose | AtWait | Returned | Panicked

fun Stop_step :: "bool \<times> pc \<Rightarrow> bool \<times> pc" where
  "Stop_step (cl, AtReceive) = (if cl then (cl, Returned) else (cl, AtClose))"
| "Stop_step (cl, AtClose) = (if cl then (cl, Panicked) else (True, AtWait))"
| "Stop_step (cl, AtWait) = (cl, Returned)"
| "Stop_step (cl, Returned) = (cl, Returned)"
| "Stop_step (cl, Panicked) = (cl, Panicked)"

datatype goroutine = G1 | G2

fun Stop_sched :: "goroutine \<Rightarrow> bool \<times> pc \<times> pc \<Rightarrow> bool \<times> pc \<times> pc" where
  "Stop_sched G1 (cl, p1, p2) = (fst (Stop_step (cl, p1)), snd (Stop_step (cl, p1)), p2)"
| "Stop_sched G2 (cl, p1, p2) = (fst (Stop_step (cl, p2)), p1, snd (Stop_step (cl, p2)))"

definition Stop_run :: "goroutine list \<Rightarrow> bool \<times> pc \<times> pc \<Rightarrow> bool \<times> pc \<times> pc" where
  "Stop_run schedule c = fold Stop_sched schedule c"

subsection \<open>The single-file monitor: releasing memory by a share of the chunks\<close>

definition main_releaseRatio :: "float64 \<Rightarrow> float64" where
  "main_releaseRatio excessPercent =
     (if excessPercent \<le> 5 then fl (3 / 10)
      else if excessPercent \<le> 10 then fl (5 / 10)
      else fl (7 / 10))"

definition main_blocksToRelease :: "ResourceConfig \<Rightarrow> float64 \<Rightarrow> nat list \<Rightarrow> int" where
  "main_blocksToRelease cfg currentPercent chunks =
     (let b = int_of_float64
                (fmul (float64_of_int (int (length chunks)))
                   (main_releaseRatio (fsub currentPercent (MemoryPercent cfg))))
      in if b < 1 then 1 else b)"

function main_releaseMemory_loop :: "int \<Rightarrow> int \<Rightarrow> nat list \<Rightarrow> nat list" where
  "main_releaseMemory_loop i blocksToRelease chunks =
     (if i < blocksToRelease \<and> length chunks > 0 then
        main_releaseMemory_loop (i + 1) blocksToRelease (take (length chunks - 1) chunks)
      else chunks)"
  by pat_completeness auto
termination
  by (relation "measure (\<lambda>(i, b, c). length c)") auto

definition main_releaseMemory :: "ResourceConfig \<Rightarrow> float64 \<Rightarrow> nat list \<Rightarrow> nat list" where
  "main_releaseMemory cfg currentPercent chunks =
     (if length chunks = 0 then chunks
      else main_releaseMemory_loop 0 (main_blocksToRelease cfg currentPercent chunks) chunks)"

subsection \<open>A configuration and a fresh monitor to run the model on\<close>

definition demo_config :: ResourceConfig where
  \<comment> \<open>the configuration of the repository's tests\<close>
  "demo_config = \<lparr>MemoryPercent = 50, CPUPercent = 30, DiskPercent = 70\<rparr>"

definition demo_state :: state where
  \<comment> \<open>a fresh monitor on four CPUs, the temporary directory empty\<close>
  "demo_state = NewResourceMonitor demo_config [] [] False 4"

definition small_pool_state :: state where
  "small_pool_state = demo_state\<lparr>AllocatedMemory := [100, 200]\<rparr>"

definition one_chunk_state :: state where
  "one_chunk_state = demo_state\<lparr>AllocatedMemory := [100]\<rparr>"

definition demo_disk_io :: disk_io where
  \<comment> \<open>no call fails; the clock stands at 1700000000\<close>
  "demo_disk_io = \<lparr>mkdirErr = False,
     fileIO = (\<lambda>i. \<lparr>now = 1700000000, createErr = False, writeErr = None\<rparr>)\<rparr>"





section \<open>Properties\<close>

subsection \<open>The rounding of \<^verbatim>\<open>float64\<close> at work\<close>

lemma float64_examples:
  "fadd (fl (1 / 10)) (fl (2 / 10)) = fl (3 / 10) + 1 / 2 ^ 54"
  "fmul 10 (fl (7 / 10)) = 7"
  "trunc (fmul 90 (fl (7 / 10))) = 62"
  "fl (2 ^ 53 + 1) = 2 ^ 53"
  "fl (2 ^ 53 + 3) = 2 ^ 53 + 4"
  by code_simp+

subsection \<open>Growing the memory pool\<close>

declare allocateMemory_loop.simps [simp del]
declare releaseMemory_loop.simps [simp del]
declare show_nat.simps [simp del]

lemma chunkSize_pos: "0 < chunkSize"
  by (simp add: chunkSize_def)

lemma allocateMemory_loop_eq:
  "allocateMemory_loop b chunks =
     chunks @ replicate (b div chunkSize) chunkSize
       @ (if b mod chunkSize = 0 then [] else [b mod chunkSize])"
proof (induction b chunks rule: allocateMemory_loop.induct)
  case (1 b chunks)
  show ?case
  proof (cases "b > 0")
    case False
    then show ?thesis by (subst allocateMemory_loop.simps) simp
  next
    case pos: True
    show ?thesis
    proof (cases "b < chunkSize")
      case True
      with pos have "allocateMemory_loop b chunks = allocateMemory_loop 0 (chunks @ [b])"
        by (subst allocateMemory_loop.simps) simp
      also have "\<dots> = chunks @ [b]"
        by (subst allocateMemory_loop.simps) simp
      finally show ?thesis using True pos by simp
    next
      case False
      then have ge: "chunkSize \<le> b" by simp
      have step: "allocateMemory_loop b chunks
                  = allocateMemory_loop (b - chunkSize) (chunks @ [chunkSize])"
        using pos False by (subst allocateMemory_loop.simps) simp
      have d: "b div chunkSize = Suc ((b - chunkSize) div chunkSize)"
        using ge chunkSize_pos by (simp add: le_div_geq)
      have m: "(b - chunkSize) mod chunkSize = b mod chunkSize"
        using ge by (simp add: le_mod_geq)
      show ?thesis
        using "1.IH" [OF pos] False step d m by (simp add: replicate_append_same)
    qed
  qed
qed


lemma allocateMemory_loop_pos:
  "\<forall>c\<in>set chunks. 0 < c \<Longrightarrow> \<forall>c\<in>set (allocateMemory_loop b chunks). 0 < c"
  by (auto simp: allocateMemory_loop_eq chunkSize_pos)

lemma fold_u64_sum:
  "a + sum_list xs < 2 ^ 64 \<Longrightarrow> fold (\<lambda>memory total. u64 (total + memory)) xs a = a + sum_list xs"
  by (induction xs arbitrary: a) (simp_all add: u64_def add.assoc)

lemma getTotalAllocatedMemory_sum:
  "sum_list chunks < 2 ^ 64 \<Longrightarrow> getTotalAllocatedMemory chunks = sum_list chunks"
  using fold_u64_sum [of 0 chunks] by (simp add: getTotalAllocatedMemory_def)

text \<open>
  C8. For every requested byte count \<open>B\<close>, \<^verbatim>\<open>allocateMemory\<close> appends \<open>B div 100MB\<close>
  chunks of exactly 100MB and then, when \<open>B\<close> is no multiple of 100MB, one last chunk
  with the remainder; the appended sizes sum to \<open>B\<close>, so the total of the pool grows by
  exactly \<open>B\<close> (as long as it stays a \<^verbatim>\<open>uint64\<close>); with \<open>B = 0\<close> nothing changes.
  The Go function returns nothing, so there is no error to return.
\<close>

theorem allocateMemory_chunks:
  "AllocatedMemory (allocateMemory B s) =
     AllocatedMemory s @ replicate (B div chunkSize) chunkSize
       @ (if B mod chunkSize = 0 then [] else [B mod chunkSize])
   \<and> chunkSize = 104857600
   \<and> sum_list (replicate (B div chunkSize) chunkSize
         @ (if B mod chunkSize = 0 then [] else [B mod chunkSize])) = B
   \<and> (sum_list (AllocatedMemory s) + B < 2 ^ 64 \<longrightarrow>
        getTotalAllocatedMemory (AllocatedMemory (allocateMemory B s))
        = getTotalAllocatedMemory (AllocatedMemory s) + B)
   \<and> allocateMemory 0 s = s"
proof -
  let ?added = "replicate (B div chunkSize) chunkSize
       @ (if B mod chunkSize = 0 then [] else [B mod chunkSize])"
  have a: "AllocatedMemory (allocateMemory B s) = AllocatedMemory s @ ?added"
    by (simp add: allocateMemory_def allocateMemory_loop_eq)
  have b: "sum_list ?added = B"
  proof (cases "B mod chunkSize = 0")
    case True
    then have "B div chunkSize * chunkSize = B" by auto
    with True show ?thesis by (simp add: sum_list_replicate)
  next
    case False
    have "B div chunkSize * chunkSize + B mod chunkSize = B" by (rule div_mult_mod_eq)
    with False show ?thesis by (simp add: sum_list_replicate)
  qed
  have c: "getTotalAllocatedMemory (AllocatedMemory (allocateMemory B s))
        = getTotalAllocatedMemory (AllocatedMemory s) + B"
    if "sum_list (AllocatedMemory s) + B < 2 ^ 64"
  proof -
    have "sum_list (AllocatedMemory s @ ?added) = sum_list (AllocatedMemory s) + B"
      using b by (simp del: replicate_append_same)
    then show ?thesis
      unfolding a using that
      by (subst getTotalAllocatedMemory_sum, simp) (subst getTotalAllocatedMemory_sum, simp_all)
  qed
  have d: "allocateMemory 0 s = s"
    by (simp add: allocateMemory_def allocateMemory_loop_eq)
  show ?thesis using a b c d by (simp add: chunkSize_def)
qed

theorem allocateMemory_chunks_witness:
  "sum_list (AllocatedMemory demo_state) + 262144000 < 2 ^ 64
   \<and> AllocatedMemory (allocateMemory 262144000 demo_state) = [104857600, 104857600, 52428800]
   \<and> getTotalAllocatedMemory (AllocatedMemory (allocateMemory 262144000 demo_state)) = 262144000"
proof -
  have h: "sum_list (AllocatedMemory demo_state) + 262144000 < 2 ^ 64"
    by (simp add: demo_state_def NewResourceMonitor_def)
  have e: "AllocatedMemory demo_state = []" "getTotalAllocatedMemory [] = 0"
    by (simp_all add: demo_state_def NewResourceMonitor_def getTotalAllocatedMemory_def)
  from allocateMemory_chunks [of 262144000 demo_state] h
  have "AllocatedMemory (allocateMemory 262144000 demo_state) =
          AllocatedMemory demo_state @ replicate (262144000 div chunkSize) chunkSize
            @ (if 262144000 mod chunkSize = 0 then [] else [262144000 mod chunkSize])"
    and "getTotalAllocatedMemory (AllocatedMemory (allocateMemory 262144000 demo_state))
        = getTotalAllocatedMemory (AllocatedMemory demo_state) + 262144000"
    by blast+
  moreover have "replicate (262144000 div chunkSize) chunkSize
            @ (if 262144000 mod chunkSize = 0 then [] else [262144000 mod chunkSize])
          = [104857600, 104857600, 52428800]"
    by code_simp
  ultimately show ?thesis using h e by simp
qed

subsection \<open>Shrinking the memory pool\<close>

lemma u64_sub_eq:
  assumes "b \<le> a" "a < 2 ^ 64"
  shows "u64_sub a b = a - b"
proof -
  have b: "b mod 2 ^ 64 = b" using assms by simp
  have "a + 2 ^ 64 - b = (a - b) + 2 ^ 64" using assms by simp
  then have "(a + 2 ^ 64 - b) mod 2 ^ 64 = (a - b) mod 2 ^ 64"
    by (metis mod_add_self2)
  also have "\<dots> = a - b" using assms by simp
  finally show ?thesis unfolding u64_sub_def b .
qed

lemma releaseMemory_loop_stop:
  "\<not> r < t \<Longrightarrow> releaseMemory_loop t i r chunks = chunks"
  by (subst releaseMemory_loop.simps) simp

lemma releaseMemory_loop_Nil: "releaseMemory_loop t (- 1) r chunks = chunks"
  by (subst releaseMemory_loop.simps) simp

lemma releaseMemory_loop_snoc:
  assumes "r + c < 2 ^ 64" "r \<le> t" "t < 2 ^ 64"
  shows "releaseMemory_loop t (int (length (xs @ [c])) - 1) r (xs @ [c]) =
     (if r < t then
        (if r + c \<le> t then releaseMemory_loop t (int (length xs) - 1) (r + c) xs
         else xs @ [t - r])
      else xs @ [c])"
proof (cases "r < t")
  case False
  then show ?thesis by (simp add: releaseMemory_loop_stop)
next
  case lt: True
  have i: "int (length (xs @ [c])) - 1 = int (length xs)" by simp
  show ?thesis
  proof (cases "r + c \<le> t")
    case True
    then show ?thesis
      using lt assms unfolding i
      by (subst releaseMemory_loop.simps) (simp add: u64_def)
  next
    case False
    have s: "u64_sub t r = t - r" using assms lt by (simp add: u64_sub_eq)
    have "releaseMemory_loop t (int (length xs)) r (xs @ [c])
          = releaseMemory_loop t (int (length xs) - 1) t (xs @ [t - r])"
      using lt False assms s
      by (subst releaseMemory_loop.simps) (simp add: u64_def)
    then show ?thesis using lt False unfolding i by (simp add: releaseMemory_loop_stop)
  qed
qed


lemma releaseMemory_loop_all:
  "\<forall>c\<in>set xs. 0 < c \<Longrightarrow> r + sum_list xs = t \<Longrightarrow> t < 2 ^ 64
   \<Longrightarrow> releaseMemory_loop t (int (length xs) - 1) r xs = []"
proof (induction xs arbitrary: r rule: rev_induct)
  case Nil
  then show ?case by (simp add: releaseMemory_loop_Nil)
next
  case (snoc c xs)
  have c: "0 < c" using snoc.prems(1) by simp
  have "releaseMemory_loop t (int (length (xs @ [c])) - 1) r (xs @ [c])
        = releaseMemory_loop t (int (length xs) - 1) (r + c) xs"
    using snoc.prems c by (subst releaseMemory_loop_snoc) auto
  also have "\<dots> = []"
    using snoc.prems by (intro snoc.IH) auto
  finally show ?case .
qed

lemma releaseMemory_loop_shape:
  "r \<le> t \<Longrightarrow> r + sum_list xs < 2 ^ 64 \<Longrightarrow> t < 2 ^ 64 \<Longrightarrow>
   \<exists>k\<le>length xs. releaseMemory_loop t (int (length xs) - 1) r xs = take k xs
      \<or> (k < length xs \<and> (\<exists>q. 0 < q \<and> q < xs ! k
            \<and> releaseMemory_loop t (int (length xs) - 1) r xs = take k xs @ [q]))"
proof (induction xs arbitrary: r rule: rev_induct)
  case Nil
  then show ?case by (simp add: releaseMemory_loop_Nil)
next
  case (snoc c xs)
  let ?L = "releaseMemory_loop t (int (length (xs @ [c])) - 1) r (xs @ [c])"
  have eq: "?L = (if r < t then
        (if r + c \<le> t then releaseMemory_loop t (int (length xs) - 1) (r + c) xs
         else xs @ [t - r])
      else xs @ [c])"
    using snoc.prems by (intro releaseMemory_loop_snoc) auto
  consider (stop) "\<not> r < t" | (whole) "r < t" "r + c \<le> t" | (part) "r < t" "\<not> r + c \<le> t"
    by blast
  then show ?case
  proof cases
    case stop
    then have "?L = take (length (xs @ [c])) (xs @ [c])" using eq by simp
    then show ?thesis by blast
  next
    case whole
    then have L: "?L = releaseMemory_loop t (int (length xs) - 1) (r + c) xs" using eq by simp
    from snoc.IH [of "r + c"] whole snoc.prems
    obtain k where k: "k \<le> length xs"
      "releaseMemory_loop t (int (length xs) - 1) (r + c) xs = take k xs
       \<or> (k < length xs \<and> (\<exists>q. 0 < q \<and> q < xs ! k
            \<and> releaseMemory_loop t (int (length xs) - 1) (r + c) xs = take k xs @ [q]))"
      by (auto simp: add.assoc)
    have "k \<le> length (xs @ [c])" using k(1) by simp
    moreover have "?L = take k (xs @ [c])
      \<or> (k < length (xs @ [c]) \<and> (\<exists>q. 0 < q \<and> q < (xs @ [c]) ! k \<and> ?L = take k (xs @ [c]) @ [q]))"
      using k unfolding L by (auto simp: nth_append)
    ultimately show ?thesis by blast
  next
    case part
    then have L: "?L = xs @ [t - r]" using eq by simp
    have "length xs < length (xs @ [c])" by simp
    moreover have "0 < t - r" "t - r < (xs @ [c]) ! length xs" using part by auto
    moreover have "?L = take (length xs) (xs @ [c]) @ [t - r]" using L by simp
    ultimately show ?thesis by (intro exI [of _ "length xs"]) auto
  qed
qed

lemma sum_list_take_le: "sum_list (take k xs) \<le> sum_list (xs :: nat list)"
proof -
  have "sum_list xs = sum_list (take k xs) + sum_list (drop k xs)"
    by (metis append_take_drop_id sum_list_append)
  then show ?thesis by simp
qed

lemma sum_list_take_nth_le:
  "k < length xs \<Longrightarrow> sum_list (take k xs) + xs ! k \<le> sum_list (xs :: nat list)"
proof -
  assume k: "k < length xs"
  have "take (Suc k) xs = take k xs @ [xs ! k]" using k by (simp add: take_Suc_conv_app_nth)
  then have "sum_list (take (Suc k) xs) = sum_list (take k xs) + xs ! k" by simp
  then show ?thesis using sum_list_take_le [of "Suc k" xs] by simp
qed

lemma releaseMemory_bytes_loop:
  "sum_list chunks < 2 ^ 64 \<Longrightarrow>
   releaseMemory_bytes X chunks =
     releaseMemory_loop (min X (sum_list chunks)) (int (length chunks) - 1) 0 chunks"
  by (simp add: releaseMemory_bytes_def getTotalAllocatedMemory_sum min_def Let_def)

lemma releaseMemory_bytes_shape:
  assumes "sum_list chunks < 2 ^ 64"
  shows "\<exists>k\<le>length chunks. releaseMemory_bytes X chunks = take k chunks
      \<or> (k < length chunks \<and> (\<exists>q. 0 < q \<and> q < chunks ! k
            \<and> releaseMemory_bytes X chunks = take k chunks @ [q]))"
  unfolding releaseMemory_bytes_loop [OF assms]
  using assms by (intro releaseMemory_loop_shape) auto

lemma releaseMemory_bytes_sum_le:
  assumes "sum_list chunks < 2 ^ 64"
  shows "sum_list (releaseMemory_bytes X chunks) \<le> sum_list chunks"
proof -
  from releaseMemory_bytes_shape [OF assms, of X] obtain k where
    "releaseMemory_bytes X chunks = take k chunks
      \<or> (k < length chunks \<and> (\<exists>q. 0 < q \<and> q < chunks ! k
            \<and> releaseMemory_bytes X chunks = take k chunks @ [q]))" by blast
  then show ?thesis
  proof
    assume "releaseMemory_bytes X chunks = take k chunks"
    then show ?thesis by (simp add: sum_list_take_le)
  next
    assume "k < length chunks \<and> (\<exists>q. 0 < q \<and> q < chunks ! k
            \<and> releaseMemory_bytes X chunks = take k chunks @ [q])"
    then obtain q where q: "k < length chunks" "q < chunks ! k"
      "releaseMemory_bytes X chunks = take k chunks @ [q]" by blast
    show ?thesis using sum_list_take_nth_le [OF q(1)] q(2) unfolding q(3) by simp
  qed
qed

lemma releaseMemory_bytes_all:
  assumes "sum_list chunks < 2 ^ 64" "\<forall>c\<in>set chunks. 0 < c" "sum_list chunks \<le> X"
  shows "releaseMemory_bytes X chunks = []"
  unfolding releaseMemory_bytes_loop [OF assms(1)]
  using assms by (intro releaseMemory_loop_all) (auto simp: min_def)

lemma releaseMemory_bytes_pos:
  assumes "sum_list chunks < 2 ^ 64" "\<forall>c\<in>set chunks. 0 < c"
  shows "\<forall>c\<in>set (releaseMemory_bytes X chunks). 0 < c"
proof -
  from releaseMemory_bytes_shape [OF assms(1), of X] obtain k where
    "releaseMemory_bytes X chunks = take k chunks
      \<or> (k < length chunks \<and> (\<exists>q. 0 < q \<and> q < chunks ! k
            \<and> releaseMemory_bytes X chunks = take k chunks @ [q]))" by blast
  then show ?thesis using assms(2) by (fastforce dest: in_set_takeD)
qed

text \<open>
  Chunks are never empty: \<^verbatim>\<open>adjustMemoryUsage\<close> keeps that.
\<close>

lemma adjustMemoryUsage_chunks_positive:
  assumes "sum_list (AllocatedMemory s) < 2 ^ 64" "\<forall>c\<in>set (AllocatedMemory s). 0 < c"
  shows "\<forall>c\<in>set (AllocatedMemory (adjustMemoryUsage cur tot s)). 0 < c"
  using assms allocateMemory_loop_pos [of "AllocatedMemory s"]
    releaseMemory_bytes_pos [of "AllocatedMemory s"]
  by (simp add: adjustMemoryUsage_def allocateMemory_def releaseMemory_def)

text \<open>
  C10. On a pool whose byte total is a \<^verbatim>\<open>uint64\<close> and whose chunks are non-empty
  (the chunks that \<^verbatim>\<open>allocateMemory\<close> and \<^verbatim>\<open>releaseMemory\<close> leave), the requested
  amount is clamped to the total held; a request of at least the total leaves the list
  empty; the total never grows, the result being a prefix of the list, possibly followed
  by a shorter rest of the next chunk (no subtraction wraps, no reslice leaves the
  chunk); and releasing from an empty pool changes nothing.
\<close>

theorem releaseMemory_clamped:
  assumes "sum_list (AllocatedMemory s) < 2 ^ 64" and "\<forall>c\<in>set (AllocatedMemory s). 0 < c"
  shows "AllocatedMemory (releaseMemory currentPercent memTotal s) =
           releaseMemory_bytes
             (min (targetReleaseBytes currentPercent memTotal s)
                (getTotalAllocatedMemory (AllocatedMemory s)))
             (AllocatedMemory s)
         \<and> (getTotalAllocatedMemory (AllocatedMemory s) \<le> targetReleaseBytes currentPercent memTotal s
              \<longrightarrow> AllocatedMemory (releaseMemory currentPercent memTotal s) = [])
         \<and> getTotalAllocatedMemory (AllocatedMemory (releaseMemory currentPercent memTotal s))
              \<le> getTotalAllocatedMemory (AllocatedMemory s)
         \<and> (\<exists>k\<le>length (AllocatedMemory s).
               AllocatedMemory (releaseMemory currentPercent memTotal s) = take k (AllocatedMemory s)
               \<or> (k < length (AllocatedMemory s) \<and> (\<exists>q. 0 < q \<and> q < AllocatedMemory s ! k
                    \<and> AllocatedMemory (releaseMemory currentPercent memTotal s)
                        = take k (AllocatedMemory s) @ [q])))
         \<and> (AllocatedMemory s = [] \<longrightarrow> releaseMemory currentPercent memTotal s = s)"
proof (cases "AllocatedMemory s = []")
  case True
  then have r: "releaseMemory currentPercent memTotal s = s"
    by (simp add: releaseMemory_def)
  have "releaseMemory_bytes X [] = []" for X
    by (simp add: releaseMemory_bytes_def releaseMemory_loop_Nil)
  then show ?thesis using True r by simp
next
  case False
  let ?X = "targetReleaseBytes currentPercent memTotal s"
  let ?cs = "AllocatedMemory s"
  have tot: "getTotalAllocatedMemory ?cs = sum_list ?cs"
    using assms(1) by (rule getTotalAllocatedMemory_sum)
  have r: "AllocatedMemory (releaseMemory currentPercent memTotal s) = releaseMemory_bytes ?X ?cs"
    using False by (simp add: releaseMemory_def)
  have clamp: "releaseMemory_bytes ?X ?cs = releaseMemory_bytes (min ?X (sum_list ?cs)) ?cs"
    using assms(1) by (simp add: releaseMemory_bytes_loop)
  have all: "releaseMemory_bytes ?X ?cs = []" if "sum_list ?cs \<le> ?X"
    using assms that by (rule releaseMemory_bytes_all)
  have le: "sum_list (releaseMemory_bytes ?X ?cs) \<le> sum_list ?cs"
    using assms(1) by (rule releaseMemory_bytes_sum_le)
  then have le': "getTotalAllocatedMemory (releaseMemory_bytes ?X ?cs) \<le> sum_list ?cs"
    using assms(1) by (subst getTotalAllocatedMemory_sum) auto
  have shape: "\<exists>k\<le>length ?cs. releaseMemory_bytes ?X ?cs = take k ?cs
      \<or> (k < length ?cs \<and> (\<exists>q. 0 < q \<and> q < ?cs ! k
            \<and> releaseMemory_bytes ?X ?cs = take k ?cs @ [q]))"
    using assms(1) by (rule releaseMemory_bytes_shape)
  show ?thesis
    unfolding r tot using clamp all le' shape False by simp
qed

theorem releaseMemory_clamped_witness:
  "sum_list (AllocatedMemory small_pool_state) < 2 ^ 64
   \<and> AllocatedMemory small_pool_state = [100, 200]
   \<and> getTotalAllocatedMemory (AllocatedMemory small_pool_state) = 300
   \<and> targetReleaseBytes 75 4000 small_pool_state = 1000
   \<and> AllocatedMemory (releaseMemory 75 4000 small_pool_state) = []
   \<and> AllocatedMemory demo_state = []
   \<and> releaseMemory 75 4000 demo_state = demo_state"
proof -
  have h1: "sum_list (AllocatedMemory small_pool_state) < 2 ^ 64"
    by (simp add: small_pool_state_def)
  have h2: "\<forall>c\<in>set (AllocatedMemory small_pool_state). 0 < c"
    by (simp add: small_pool_state_def)
  have t: "getTotalAllocatedMemory (AllocatedMemory small_pool_state) = 300"
    by code_simp
  have x: "targetReleaseBytes 75 4000 small_pool_state = 1000"
    by code_simp
  from releaseMemory_clamped [OF h1 h2, of 75 4000]
  have "getTotalAllocatedMemory (AllocatedMemory small_pool_state)
          \<le> targetReleaseBytes 75 4000 small_pool_state
        \<longrightarrow> AllocatedMemory (releaseMemory 75 4000 small_pool_state) = []"
    by blast
  then have "AllocatedMemory (releaseMemory 75 4000 small_pool_state) = []"
    using t x by simp
  moreover have "AllocatedMemory small_pool_state = [100, 200]"
    by (simp add: small_pool_state_def)
  moreover have e: "AllocatedMemory demo_state = []"
    by (simp add: demo_state_def NewResourceMonitor_def)
  moreover have "releaseMemory 75 4000 demo_state = demo_state"
    using releaseMemory_clamped [of demo_state 75 4000] e by simp
  ultimately show ?thesis using h1 t x by blast
qed

text \<open>
  A single chunk larger than the request is cut down to the request itself.
\<close>

lemma releaseMemory_bytes_single:
  assumes "0 < X" "X < c" "c < 2 ^ 64"
  shows "releaseMemory_bytes X [c] = [X]"
proof -
  have "releaseMemory_bytes X [c] = releaseMemory_loop X (int (length ([] @ [c])) - 1) 0 ([] @ [c])"
    using assms by (simp add: releaseMemory_bytes_loop min_def)
  also have "\<dots> = [X]"
    using assms by (subst releaseMemory_loop_snoc) auto
  finally show ?thesis .
qed

text \<open>
  C4. The pool holds one chunk of 100 bytes and 30 bytes are to be released. The chunk
  straddles the boundary and is resliced to its first 30 bytes: 70 bytes are released,
  30 remain, where releasing exactly 30 would leave 70.
\<close>

theorem releaseMemory_straddling_chunk:
  "getTotalAllocatedMemory (AllocatedMemory one_chunk_state) = 100
   \<and> targetReleaseBytes 75 120 one_chunk_state = 30
   \<and> AllocatedMemory (releaseMemory 75 120 one_chunk_state) = [30]
   \<and> getTotalAllocatedMemory (AllocatedMemory (releaseMemory 75 120 one_chunk_state)) = 30"
  by code_simp

subsection \<open>The single-file monitor releases a share of the chunks\<close>

declare main_releaseMemory_loop.simps [simp del]

lemma main_releaseMemory_loop_eq:
  "main_releaseMemory_loop i b chunks = take (length chunks - nat (b - i)) chunks"
proof (induction i b chunks rule: main_releaseMemory_loop.induct)
  case (1 i b chunks)
  show ?case
  proof (cases "i < b \<and> length chunks > 0")
    case False
    then show ?thesis by (subst main_releaseMemory_loop.simps) auto
  next
    case True
    then have n: "nat (b - i) = Suc (nat (b - (i + 1)))" by auto
    have "main_releaseMemory_loop i b chunks
          = main_releaseMemory_loop (i + 1) b (take (length chunks - 1) chunks)"
      using True by (subst main_releaseMemory_loop.simps) simp
    also have "\<dots> = take (length (take (length chunks - 1) chunks) - nat (b - (i + 1)))
                       (take (length chunks - 1) chunks)"
      using True by (intro "1.IH") simp
    also have "\<dots> = take (length chunks - nat (b - i)) chunks"
      unfolding n by (simp add: min_def)
    finally show ?thesis .
  qed
qed

lemma main_blocksToRelease_ge1: "1 \<le> main_blocksToRelease cfg cur chunks"
  by (simp add: main_blocksToRelease_def Let_def)

lemma fl_ratio_values: "fl (3 / 10) \<le> fl (5 / 10)" "fl (5 / 10) \<le> fl (7 / 10)" "fl (5 / 10) = 1 / 2"
  by code_simp+

lemma main_releaseRatio_mono:
  "e1 \<le> e2 \<Longrightarrow> main_releaseRatio e1 \<le> main_releaseRatio e2"
  using fl_ratio_values by (auto simp: main_releaseRatio_def)

text \<open>
  C5 (amended). The release of the single-file monitor removes chunks, not bytes: on a
  non-empty pool of \<open>n\<close> chunks it cuts the last \<open>max 1 (trunc (n * r))\<close> chunks off the
  list (all of them when there are fewer), at least one, where \<open>r\<close> is 0.3 when the
  excess \<open>currentPercent - MemoryPercent\<close> is at most 5, 0.5 when it is at most 10 and
  0.7 otherwise, in \<^verbatim>\<open>float64\<close> arithmetic; \<open>r\<close> does not decrease when the excess
  grows. An empty pool is left as it is.
\<close>

theorem main_releaseMemory_share:
  "(chunks \<noteq> [] \<longrightarrow>
      main_releaseMemory cfg currentPercent chunks
        = take (length chunks - nat (main_blocksToRelease cfg currentPercent chunks)) chunks
      \<and> length (main_releaseMemory cfg currentPercent chunks) < length chunks)
   \<and> main_releaseMemory cfg currentPercent [] = []
   \<and> main_blocksToRelease cfg currentPercent chunks
       = max 1 (int_of_float64
                  (fmul (float64_of_int (int (length chunks)))
                     (main_releaseRatio (fsub currentPercent (MemoryPercent cfg)))))
   \<and> main_releaseRatio excess
       = (if excess \<le> 5 then fl (3 / 10) else if excess \<le> 10 then 1 / 2 else fl (7 / 10))
   \<and> (excess \<le> excess' \<longrightarrow> main_releaseRatio excess \<le> main_releaseRatio excess')"
proof -
  have a: "main_releaseMemory cfg currentPercent chunks
        = take (length chunks - nat (main_blocksToRelease cfg currentPercent chunks)) chunks"
    by (simp add: main_releaseMemory_def main_releaseMemory_loop_eq)
  have b: "length (main_releaseMemory cfg currentPercent chunks) < length chunks"
    if "chunks \<noteq> []"
    unfolding a using that main_blocksToRelease_ge1 [of cfg currentPercent chunks] by auto
  have c: "main_releaseMemory cfg currentPercent [] = []"
    by (simp add: main_releaseMemory_def)
  have d: "main_blocksToRelease cfg currentPercent chunks
       = max 1 (int_of_float64
                  (fmul (float64_of_int (int (length chunks)))
                     (main_releaseRatio (fsub currentPercent (MemoryPercent cfg)))))"
    by (simp add: main_blocksToRelease_def Let_def max_def)
  have e: "main_releaseRatio excess
       = (if excess \<le> 5 then fl (3 / 10) else if excess \<le> 10 then 1 / 2 else fl (7 / 10))"
    using fl_ratio_values(3) by (simp add: main_releaseRatio_def)
  show ?thesis
    using a b c d e main_releaseRatio_mono [of excess excess'] by blast
qed

theorem main_releaseMemory_share_witness:
  "[1048576, 1048576, 1048576, 1048576, 1048576] \<noteq> ([] :: nat list)
   \<and> main_blocksToRelease demo_config 80 [1048576, 1048576, 1048576, 1048576, 1048576] = 3
   \<and> main_releaseMemory demo_config 80 [1048576, 1048576, 1048576, 1048576, 1048576]
       = [1048576, 1048576]
   \<and> (3 :: rat) \<le> 30 \<and> main_releaseRatio 3 \<le> main_releaseRatio 30"
proof -
  let ?cs = "[1048576, 1048576, 1048576, 1048576, 1048576] :: nat list"
  have h: "?cs \<noteq> []" by simp
  have k: "main_blocksToRelease demo_config 80 ?cs = 3" by code_simp
  from main_releaseMemory_share [of ?cs demo_config 80 3 30] h
  have "main_releaseMemory demo_config 80 ?cs
          = take (length ?cs - nat (main_blocksToRelease demo_config 80 ?cs)) ?cs"
    and "main_releaseRatio 3 \<le> main_releaseRatio 30"
    by simp_all
  then show ?thesis using k by simp
qed

theorem main_releaseMemory_share_counterexample:
  "fsub 53 (MemoryPercent demo_config) = 3
   \<and> sum_list [10, 10, 10, 70 :: nat] = 100
   \<and> main_releaseMemory demo_config 53 [10, 10, 10, 70] = [10, 10, 10]
   \<and> sum_list (main_releaseMemory demo_config 53 [10, 10, 10, 70]) = 30
   \<and> fsub 80 (MemoryPercent demo_config) = 30
   \<and> main_releaseMemory demo_config 80 [1048576] = []"
  by code_simp

subsection \<open>The thresholds of the three adjustments\<close>

lemma cpuTargetWorkers_bounds:
  "1 \<le> numCPU s \<Longrightarrow> 1 \<le> cpuTargetWorkers s \<and> cpuTargetWorkers s \<le> numCPU s"
  by (simp add: cpuTargetWorkers_def Let_def)

lemma allocateMemory_sum:
  "sum_list (AllocatedMemory (allocateMemory B s)) = sum_list (AllocatedMemory s) + B"
proof -
  have "B div chunkSize * chunkSize + B mod chunkSize = B" by (rule div_mult_mod_eq)
  then show ?thesis
    by (cases "B mod chunkSize = 0")
       (auto simp: allocateMemory_def allocateMemory_loop_eq sum_list_replicate)
qed

text \<open>
  C2 (amended). The band is the constant 5 and only the CPU uses it on both sides.
  Memory and disk grow whenever \<open>current < target\<close>, by
  \<^verbatim>\<open>uint64((target - current) / 100 * total)\<close> bytes (which is 0 when that product is
  below 1); they shrink when \<open>current\<close> is not below the target and above
  \<open>target + 5\<close>, and are left alone otherwise. The CPU grows when
  \<open>current < target - 5\<close>, to a worker count between 1 and the number of CPUs, shrinks
  to no worker when \<open>current > target + 5\<close> and is left alone in between. Sums and
  differences are those of \<^verbatim>\<open>float64\<close>.
\<close>

theorem adjust_thresholds:
  "(curM < MemoryPercent (Config s) \<longrightarrow>
      adjustMemoryUsage curM totM s
        = allocateMemory (adjustTargetBytes (MemoryPercent (Config s)) curM totM) s
      \<and> sum_list (AllocatedMemory (adjustMemoryUsage curM totM s))
        = sum_list (AllocatedMemory s) + adjustTargetBytes (MemoryPercent (Config s)) curM totM)
   \<and> (\<not> curM < MemoryPercent (Config s) \<and> fadd (MemoryPercent (Config s)) 5 < curM \<longrightarrow>
      adjustMemoryUsage curM totM s = releaseMemory curM totM s)
   \<and> (\<not> curM < MemoryPercent (Config s) \<and> \<not> fadd (MemoryPercent (Config s)) 5 < curM \<longrightarrow>
      adjustMemoryUsage curM totM s = s)
   \<and> (curD < DiskPercent (Config s) \<longrightarrow>
      adjustDiskUsage io curD totD s
        = createTempFiles io (adjustTargetBytes (DiskPercent (Config s)) curD totD) s)
   \<and> (\<not> curD < DiskPercent (Config s) \<and> fadd (DiskPercent (Config s)) 5 < curD \<longrightarrow>
      adjustDiskUsage io curD totD s = cleanupTempFiles s)
   \<and> (\<not> curD < DiskPercent (Config s) \<and> \<not> fadd (DiskPercent (Config s)) 5 < curD \<longrightarrow>
      adjustDiskUsage io curD totD s = s)
   \<and> (curC < fsub (CPUPercent (Config s)) 5 \<longrightarrow>
      adjustCPUUsage curC s = adjustCPUWorkers (cpuTargetWorkers s) s
      \<and> (1 \<le> numCPU s \<longrightarrow> 1 \<le> cpuTargetWorkers s \<and> cpuTargetWorkers s \<le> numCPU s))
   \<and> (\<not> curC < fsub (CPUPercent (Config s)) 5 \<and> fadd (CPUPercent (Config s)) 5 < curC \<longrightarrow>
      adjustCPUUsage curC s = adjustCPUWorkers 0 s)
   \<and> (\<not> curC < fsub (CPUPercent (Config s)) 5 \<and> \<not> fadd (CPUPercent (Config s)) 5 < curC \<longrightarrow>
      adjustCPUUsage curC s = s)"
proof -
  have m: "adjustMemoryUsage curM totM s
        = allocateMemory (adjustTargetBytes (MemoryPercent (Config s)) curM totM) s"
    if "curM < MemoryPercent (Config s)"
    using that by (simp add: adjustMemoryUsage_def)
  have m': "sum_list (AllocatedMemory (adjustMemoryUsage curM totM s))
        = sum_list (AllocatedMemory s) + adjustTargetBytes (MemoryPercent (Config s)) curM totM"
    if "curM < MemoryPercent (Config s)"
    unfolding m [OF that] by (rule allocateMemory_sum)
  show ?thesis
    using m m' cpuTargetWorkers_bounds [of s]
    by (simp add: adjustMemoryUsage_def adjustDiskUsage_def adjustCPUUsage_def)
qed

theorem adjust_thresholds_witness:
  "(20 < MemoryPercent (Config demo_state)
     \<and> AllocatedMemory (adjustMemoryUsage 20 1000000000 demo_state)
        = [104857600, 104857600, 90284800])
   \<and> (50 < DiskPercent (Config demo_state)
     \<and> map snd (files (adjustDiskUsage demo_disk_io 50 1000 demo_state)) = [200])
   \<and> (10 < fsub (CPUPercent (Config demo_state)) 5 \<and> 1 \<le> numCPU demo_state
     \<and> 1 \<le> cpuTargetWorkers demo_state \<and> cpuTargetWorkers demo_state \<le> numCPU demo_state
     \<and> ActiveCPULoad (adjustCPUUsage 10 demo_state)
     \<and> currentCPUWorkers (adjustCPUUsage 10 demo_state) = 1)
   \<and> (\<not> 80 < MemoryPercent (Config small_pool_state)
     \<and> fadd (MemoryPercent (Config small_pool_state)) 5 < 80
     \<and> AllocatedMemory (adjustMemoryUsage 80 1000000000 small_pool_state) = [])
   \<and> (\<not> 90 < DiskPercent (Config demo_state) \<and> fadd (DiskPercent (Config demo_state)) 5 < 90
     \<and> files (adjustDiskUsage demo_disk_io 90 1000 demo_state) = [])
   \<and> (\<not> 60 < fsub (CPUPercent (Config demo_state)) 5
     \<and> fadd (CPUPercent (Config demo_state)) 5 < 60
     \<and> \<not> ActiveCPULoad (adjustCPUUsage 60 demo_state))
   \<and> (\<not> 52 < MemoryPercent (Config small_pool_state)
     \<and> \<not> fadd (MemoryPercent (Config small_pool_state)) 5 < 52
     \<and> adjustMemoryUsage 52 1000000000 small_pool_state = small_pool_state)
   \<and> (\<not> 72 < DiskPercent (Config demo_state) \<and> \<not> fadd (DiskPercent (Config demo_state)) 5 < 72
     \<and> adjustDiskUsage demo_disk_io 72 1000 demo_state = demo_state)
   \<and> (\<not> 30 < fsub (CPUPercent (Config demo_state)) 5
     \<and> \<not> fadd (CPUPercent (Config demo_state)) 5 < 30
     \<and> adjustCPUUsage 30 demo_state = demo_state)"
proof -
  have lo: "20 < MemoryPercent (Config demo_state)" "50 < DiskPercent (Config demo_state)"
    "10 < fsub (CPUPercent (Config demo_state)) 5" "1 \<le> numCPU demo_state"
    by code_simp+
  have hi: "\<not> 80 < MemoryPercent (Config small_pool_state)"
    "fadd (MemoryPercent (Config small_pool_state)) 5 < 80"
    "\<not> 90 < DiskPercent (Config demo_state)" "fadd (DiskPercent (Config demo_state)) 5 < 90"
    "\<not> 60 < fsub (CPUPercent (Config demo_state)) 5"
    "fadd (CPUPercent (Config demo_state)) 5 < 60"
    by code_simp+
  have mid: "\<not> 52 < MemoryPercent (Config small_pool_state)"
    "\<not> fadd (MemoryPercent (Config small_pool_state)) 5 < 52"
    "\<not> 72 < DiskPercent (Config demo_state)" "\<not> fadd (DiskPercent (Config demo_state)) 5 < 72"
    "\<not> 30 < fsub (CPUPercent (Config demo_state)) 5"
    "\<not> fadd (CPUPercent (Config demo_state)) 5 < 30"
    by code_simp+
  have ev: "AllocatedMemory (allocateMemory
              (adjustTargetBytes (MemoryPercent (Config demo_state)) 20 1000000000) demo_state)
            = [104857600, 104857600, 90284800]"
    "map snd (files (createTempFiles demo_disk_io
              (adjustTargetBytes (DiskPercent (Config demo_state)) 50 1000) demo_state)) = [200]"
    "ActiveCPULoad (adjustCPUWorkers (cpuTargetWorkers demo_state) demo_state)"
    "currentCPUWorkers (adjustCPUWorkers (cpuTargetWorkers demo_state) demo_state) = 1"
    "AllocatedMemory (releaseMemory 80 1000000000 small_pool_state) = []"
    "files (cleanupTempFiles demo_state) = []"
    "\<not> ActiveCPULoad (adjustCPUWorkers 0 demo_state)"
    by code_simp+
  from adjust_thresholds [of 20 demo_state 1000000000 50 demo_disk_io 1000 10] lo
  have a: "adjustMemoryUsage 20 1000000000 demo_state
        = allocateMemory (adjustTargetBytes (MemoryPercent (Config demo_state)) 20 1000000000)
            demo_state"
    "adjustDiskUsage demo_disk_io 50 1000 demo_state
        = createTempFiles demo_disk_io
            (adjustTargetBytes (DiskPercent (Config demo_state)) 50 1000) demo_state"
    "adjustCPUUsage 10 demo_state = adjustCPUWorkers (cpuTargetWorkers demo_state) demo_state"
    "1 \<le> cpuTargetWorkers demo_state" "cpuTargetWorkers demo_state \<le> numCPU demo_state"
    by blast+
  from adjust_thresholds [of 80 small_pool_state 1000000000] hi
  have b1: "adjustMemoryUsage 80 1000000000 small_pool_state
        = releaseMemory 80 1000000000 small_pool_state"
    by blast
  from adjust_thresholds [of _ demo_state _ 90 demo_disk_io 1000 60] hi
  have b: "adjustDiskUsage demo_disk_io 90 1000 demo_state = cleanupTempFiles demo_state"
    "adjustCPUUsage 60 demo_state = adjustCPUWorkers 0 demo_state"
    by blast+
  from adjust_thresholds [of 52 small_pool_state 1000000000] mid
  have c1: "adjustMemoryUsage 52 1000000000 small_pool_state = small_pool_state"
    by blast
  from adjust_thresholds [of _ demo_state _ 72 demo_disk_io 1000 30] mid
  have c: "adjustDiskUsage demo_disk_io 72 1000 demo_state = demo_state"
    "adjustCPUUsage 30 demo_state = demo_state"
    by blast+
  show ?thesis
    unfolding a(1-3) b b1 c c1 using a(4,5) lo hi mid ev by blast
qed

theorem adjust_thresholds_counterexample:
  "MemoryPercent (Config demo_state) = 50
   \<and> (50 :: rat) - 5 \<le> 47 \<and> (47 :: rat) \<le> 50 + 5
   \<and> fsub 50 5 \<le> 47 \<and> 47 \<le> fadd 50 5
   \<and> AllocatedMemory (adjustMemoryUsage 47 1000000000 demo_state) = [30000000]
   \<and> DiskPercent (Config demo_state) = 70
   \<and> (50 :: rat) < 70 - 5 \<and> 50 < fsub 70 5
   \<and> adjustTargetBytes 70 50 0 = 0
   \<and> adjustDiskUsage demo_disk_io 50 0 demo_state = demo_state"
  by code_simp

subsection \<open>Padding files\<close>

declare createTempFiles_loop.simps [simp del]

lemma digit_char_inj:
  "d < 10 \<Longrightarrow> d' < 10 \<Longrightarrow> char_of (48 + d) = (char_of (48 + d') :: char) \<Longrightarrow> d = (d' :: nat)"
proof -
  assume d: "d < 10" "d' < 10" and eq: "char_of (48 + d) = (char_of (48 + d') :: char)"
  have "(of_char (char_of (48 + d) :: char) :: nat) = of_char (char_of (48 + d') :: char)"
    using eq by simp
  then have "(48 + d) mod 256 = (48 + d') mod 256" by simp
  then show ?thesis using d by simp
qed

lemma digit_char_not_underscore: "d < 10 \<Longrightarrow> (char_of (48 + d) :: char) \<noteq> CHR ''_''" for d :: nat
proof
  assume d: "d < 10" and eq: "(char_of (48 + d) :: char) = CHR ''_''"
  have "(of_char (char_of (48 + d) :: char) :: nat) = of_char (CHR ''_'')"
    using eq by simp
  then have "(48 + d) mod 256 = 95" by simp
  then show False using d by simp
qed

lemma show_nat_nonempty: "show_nat n \<noteq> []"
  by (subst show_nat.simps) simp

lemma show_nat_small: "n < 10 \<Longrightarrow> show_nat n = [char_of (48 + n)]"
  by (subst show_nat.simps) simp

lemma show_nat_big: "\<not> n < 10 \<Longrightarrow> show_nat n = show_nat (n div 10) @ [char_of (48 + n mod 10)]"
  by (subst show_nat.simps) simp

lemma show_nat_no_underscore: "CHR ''_'' \<notin> set (show_nat n)"
proof (induction n rule: show_nat.induct)
  case (1 n)
  show ?case
  proof (cases "n < 10")
    case True
    then show ?thesis using digit_char_not_underscore [of n] by (auto simp: show_nat_small)
  next
    case False
    then show ?thesis
      using "1.IH" digit_char_not_underscore [of "n mod 10"] by (auto simp: show_nat_big)
  qed
qed

lemma show_nat_inj: "show_nat n = show_nat m \<Longrightarrow> n = m"
proof (induction n arbitrary: m rule: show_nat.induct)
  case (1 n)
  show ?case
  proof (cases "n < 10")
    case n: True
    show ?thesis
    proof (cases "m < 10")
      case True
      then show ?thesis using "1.prems" n digit_char_inj [of n m] by (simp add: show_nat_small)
    next
      case False
      then show ?thesis
        using "1.prems" n show_nat_nonempty [of "m div 10"]
        by (simp add: show_nat_small show_nat_big)
    qed
  next
    case n: False
    show ?thesis
    proof (cases "m < 10")
      case True
      then show ?thesis
        using "1.prems" n show_nat_nonempty [of "n div 10"]
        by (simp add: show_nat_small show_nat_big)
    next
      case False
      with "1.prems" n have a: "show_nat (n div 10) = show_nat (m div 10)"
        and b: "char_of (48 + n mod 10) = (char_of (48 + m mod 10) :: char)"
        by (simp_all add: show_nat_big)
      have "n div 10 = m div 10" using "1.IH" [OF n a] .
      moreover have "n mod 10 = m mod 10" using digit_char_inj [OF _ _ b] by simp
      ultimately show ?thesis by (metis div_mult_mod_eq)
    qed
  qed
qed

lemma after_last_separator:
  assumes "xs @ c # ys = xs' @ c # ys'" "c \<notin> set ys" "c \<notin> set ys'"
  shows "ys = ys'"
proof -
  have tw: "takeWhile (\<lambda>x. x \<noteq> c) (rev (us @ c # vs)) = rev vs" if "c \<notin> set vs" for us vs
  proof -
    have "\<And>x. x \<in> set (rev vs) \<Longrightarrow> x \<noteq> c" using that by auto
    then have "takeWhile (\<lambda>x. x \<noteq> c) (rev vs @ c # rev us)
               = rev vs @ takeWhile (\<lambda>x. x \<noteq> c) (c # rev us)"
      by (rule takeWhile_append2)
    then show ?thesis by simp
  qed
  have "takeWhile (\<lambda>x. x \<noteq> c) (rev (xs @ c # ys)) = rev ys"
    using assms(2) by (rule tw)
  moreover have "takeWhile (\<lambda>x. x \<noteq> c) (rev (xs' @ c # ys')) = rev ys'"
    using assms(3) by (rule tw)
  ultimately show ?thesis using assms(1) by (metis rev_rev_ident)
qed

lemma tempFileName_index_inj:
  assumes "tempFileName t i = tempFileName t' j" "0 \<le> i" "0 \<le> j"
  shows "i = j"
proof -
  have "(show_int t @ ''_'' @ show_nat (nat i)) @ ''.dat''
        = (show_int t' @ ''_'' @ show_nat (nat j)) @ ''.dat''"
    using assms by (simp add: tempFileName_def show_int_def)
  then have "show_int t @ CHR ''_'' # show_nat (nat i) = show_int t' @ CHR ''_'' # show_nat (nat j)"
    by simp
  then have "show_nat (nat i) = show_nat (nat j)"
    by (rule after_last_separator) (rule show_nat_no_underscore)+
  then have "nat i = nat j" by (rule show_nat_inj)
  then show ?thesis using assms(2,3) by simp
qed


lemma writeFile_frame: "writeFile n k s = s\<lparr>files := files (writeFile n k s)\<rparr>"
  by (simp add: writeFile_def)

lemma os_Remove_frame: "os_Remove n s = s\<lparr>files := files (os_Remove n s)\<rparr>"
  by (simp add: os_Remove_def)

lemma createTempFiles_loop_frame:
  "createTempFiles_loop io r i s = s\<lparr>files := files (createTempFiles_loop io r i s)\<rparr>"
proof (induction io r i s rule: createTempFiles_loop.induct)
  case (1 io r i s)
  let ?n = "tempFileName (now (io i)) (int i)"
  let ?cur = "if r < fileSize then r else fileSize"
  consider (fin) "\<not> r > 0" | (cerr) "r > 0" "createErr (io i)"
    | (werr) "r > 0" "\<not> createErr (io i)" "writeErr (io i) \<noteq> None"
    | (go) "r > 0" "\<not> createErr (io i)" "writeErr (io i) = None"
    by blast
  then show ?case
  proof cases
    case fin
    then show ?thesis by (subst (1 2) createTempFiles_loop.simps) simp
  next
    case cerr
    then show ?thesis by (subst (1 2) createTempFiles_loop.simps) simp
  next
    case werr
    then show ?thesis
      by (subst (1 2) createTempFiles_loop.simps) (simp add: os_Remove_def writeFile_def)
  next
    case go
    have step: "createTempFiles_loop io r i s
          = createTempFiles_loop io (r - ?cur) (i + 1) (writeFile ?n ?cur s)"
      using go by (subst createTempFiles_loop.simps) simp
    have "createTempFiles_loop io (r - ?cur) (i + 1) (writeFile ?n ?cur s)
          = (writeFile ?n ?cur s)
              \<lparr>files := files (createTempFiles_loop io (r - ?cur) (i + 1) (writeFile ?n ?cur s))\<rparr>"
      using go by (intro "1.IH") auto
    also have "\<dots> = s\<lparr>files := files (createTempFiles_loop io (r - ?cur) (i + 1) (writeFile ?n ?cur s))\<rparr>"
      by (simp add: writeFile_def)
    finally show ?thesis unfolding step .
  qed
qed

lemma fileSize_pos: "0 < fileSize"
  by (simp add: fileSize_def)

lemma capped_sizes_step:
  fixes cap B :: nat
  assumes "0 < cap" "0 < B"
  shows "replicate (B div cap) cap @ (if B mod cap = 0 then [] else [B mod cap])
         = (if B < cap then B else cap)
           # (replicate ((B - (if B < cap then B else cap)) div cap) cap
              @ (if (B - (if B < cap then B else cap)) mod cap = 0 then []
                 else [(B - (if B < cap then B else cap)) mod cap]))"
proof (cases "B < cap")
  case True
  then show ?thesis using assms by simp
next
  case False
  then have ge: "cap \<le> B" by simp
  have d: "B div cap = Suc ((B - cap) div cap)" using ge assms(1) by (simp add: le_div_geq)
  have m: "(B - cap) mod cap = B mod cap" using ge by (simp add: le_mod_geq)
  show ?thesis using False d m by simp
qed

lemma createTempFiles_loop_ok:
  "(\<forall>j. \<not> createErr (io j) \<and> writeErr (io j) = None) \<Longrightarrow>
   (\<forall>j\<ge>i. tempFileName (now (io j)) (int j) \<notin> fst ` set (files s)) \<Longrightarrow>
    files (createTempFiles_loop io B i s) =
      files s @ zip (map (\<lambda>j. tempFileName (now (io j)) (int j))
                      [i ..< i + length (replicate (B div fileSize) fileSize
                          @ (if B mod fileSize = 0 then [] else [B mod fileSize]))])
                  (replicate (B div fileSize) fileSize
                     @ (if B mod fileSize = 0 then [] else [B mod fileSize]))"
proof (induction io B i s rule: createTempFiles_loop.induct)
  case (1 io B i s)
  let ?n = "\<lambda>j. tempFileName (now (io j)) (int j)"
  let ?sz = "\<lambda>B. replicate (B div fileSize) fileSize
                  @ (if B mod fileSize = 0 then [] else [B mod fileSize])"
  let ?cur = "if B < fileSize then B else fileSize"
  show ?case
  proof (cases "B > 0")
    case False
    then show ?thesis by (subst createTempFiles_loop.simps) simp
  next
    case pos: True
    have ok: "\<not> createErr (io i)" "writeErr (io i) = None" using "1.prems"(1) by auto
    have step: "createTempFiles_loop io B i s
          = createTempFiles_loop io (B - ?cur) (i + 1) (writeFile (?n i) ?cur s)"
      using pos ok by (subst createTempFiles_loop.simps) simp
    have fresh_i: "?n i \<notin> fst ` set (files s)" using "1.prems"(2) by auto
    then have "filter (\<lambda>(m, _). m \<noteq> ?n i) (files s) = files s"
      by (force simp: filter_id_conv)
    then have f1: "files (writeFile (?n i) ?cur s) = files s @ [(?n i, ?cur)]"
      by (simp add: writeFile_def)
    have fresh': "\<forall>j\<ge>i + 1. ?n j \<notin> fst ` set (files (writeFile (?n i) ?cur s))"
    proof (intro allI impI)
      fix j assume j: "i + 1 \<le> j"
      then have "?n j \<notin> fst ` set (files s)" using "1.prems"(2) by auto
      moreover have "?n j \<noteq> ?n i"
      proof
        assume "?n j = ?n i"
        then have "int j = int i" by (rule tempFileName_index_inj) simp_all
        then show False using j by simp
      qed
      ultimately show "?n j \<notin> fst ` set (files (writeFile (?n i) ?cur s))"
        unfolding f1 by auto
    qed
    have IH: "files (createTempFiles_loop io (B - ?cur) (i + 1) (writeFile (?n i) ?cur s))
          = files (writeFile (?n i) ?cur s)
            @ zip (map ?n [i + 1 ..< i + 1 + length (?sz (B - ?cur))]) (?sz (B - ?cur))"
      using pos ok "1.prems"(1) fresh' by (intro "1.IH") auto
    have sz: "?sz B = ?cur # ?sz (B - ?cur)"
      using fileSize_pos pos by (rule capped_sizes_step)
    have upt: "[i ..< i + length (?sz B)] = i # [i + 1 ..< i + 1 + length (?sz (B - ?cur))]"
      unfolding sz by (simp add: upt_conv_Cons)
    show ?thesis
      unfolding step IH f1 upt unfolding sz by simp
  qed
qed

text \<open>
  C6. When no call of the operating system fails and no file of the directory bears one
  of the names to be used, \<^verbatim>\<open>createTempFiles\<close> adds one file per started 5GB of the
  request, in order: \<open>B div 5GB\<close> files of exactly 5GB and then, when \<open>B\<close> is no
  multiple of 5GB, one file with the remainder. The sizes written sum to \<open>B\<close>, and a
  request of 12GB adds exactly three files of 5GB, 5GB and 2GB.
\<close>

theorem createTempFiles_split:
  assumes "\<not> mkdirErr io"
    and "\<forall>j. \<not> createErr (fileIO io j) \<and> writeErr (fileIO io j) = None"
    and "\<forall>j. tempFileName (now (fileIO io j)) (int j) \<notin> fst ` set (files s)"
  shows "files (createTempFiles io B s) =
           files s @ zip (map (\<lambda>j. tempFileName (now (fileIO io j)) (int j))
                            [0 ..< B div fileSize + (if B mod fileSize = 0 then 0 else 1)])
                        (replicate (B div fileSize) fileSize
                           @ (if B mod fileSize = 0 then [] else [B mod fileSize]))
         \<and> map snd (files (createTempFiles io B s)) =
             map snd (files s) @ replicate (B div fileSize) fileSize
               @ (if B mod fileSize = 0 then [] else [B mod fileSize])
         \<and> length (files (createTempFiles io B s)) =
             length (files s) + B div fileSize + (if B mod fileSize = 0 then 0 else 1)
         \<and> sum_list (map snd (files (createTempFiles io B s))) = sum_list (map snd (files s)) + B
         \<and> fileSize = 5368709120
         \<and> (B = 12 * 1024 * 1024 * 1024 \<longrightarrow>
              map snd (files (createTempFiles io B s)) =
                map snd (files s) @ [5368709120, 5368709120, 2147483648])"
proof -
  let ?sz = "replicate (B div fileSize) fileSize
               @ (if B mod fileSize = 0 then [] else [B mod fileSize])"
  let ?k = "B div fileSize + (if B mod fileSize = 0 then 0 else 1)"
  let ?names = "map (\<lambda>j. tempFileName (now (fileIO io j)) (int j)) [0 ..< ?k]"
  have len: "length ?sz = ?k" by simp
  have "files (createTempFiles io B s) = files (createTempFiles_loop (fileIO io) B 0 s)"
    using assms(1) by (simp add: createTempFiles_def)
  also have "\<dots> = files s @ zip (map (\<lambda>j. tempFileName (now (fileIO io j)) (int j))
                                   [0 ..< 0 + length ?sz]) ?sz"
    using assms(2,3) by (intro createTempFiles_loop_ok) auto
  finally have a: "files (createTempFiles io B s) = files s @ zip ?names ?sz"
    unfolding len by simp
  have "length ?names = length ?sz" by simp
  then have ms: "map snd (zip ?names ?sz) = ?sz" by (rule map_snd_zip)
  have b: "map snd (files (createTempFiles io B s)) = map snd (files s) @ ?sz"
    unfolding a using ms by simp
  have c: "length (files (createTempFiles io B s)) = length (files s) + B div fileSize
             + (if B mod fileSize = 0 then 0 else 1)"
    unfolding a by simp
  have sum: "sum_list ?sz = B"
  proof (cases "B mod fileSize = 0")
    case True
    then have "B div fileSize * fileSize = B" by auto
    with True show ?thesis by (simp add: sum_list_replicate)
  next
    case False
    have "B div fileSize * fileSize + B mod fileSize = B" by (rule div_mult_mod_eq)
    with False show ?thesis by (simp add: sum_list_replicate)
  qed
  have d: "sum_list (map snd (files (createTempFiles io B s))) = sum_list (map snd (files s)) + B"
    unfolding b using sum by (simp del: replicate_append_same)
  have e: "fileSize = 5368709120" by (simp add: fileSize_def)
  have f: "map snd (files (createTempFiles io B s)) =
             map snd (files s) @ [5368709120, 5368709120, 2147483648]"
    if "B = 12 * 1024 * 1024 * 1024"
  proof -
    have "?sz = [5368709120, 5368709120, 2147483648]"
      unfolding that by code_simp
    then show ?thesis using b by simp
  qed
  show ?thesis using a b c d e f by blast
qed

theorem createTempFiles_split_witness:
  "\<not> mkdirErr demo_disk_io
   \<and> (\<forall>j. \<not> createErr (fileIO demo_disk_io j) \<and> writeErr (fileIO demo_disk_io j) = None)
   \<and> files demo_state = []
   \<and> files (createTempFiles demo_disk_io (12 * 1024 * 1024 * 1024) demo_state) =
       [(''go_occupy_temp_1700000000_0.dat'', 5368709120),
        (''go_occupy_temp_1700000000_1.dat'', 5368709120),
        (''go_occupy_temp_1700000000_2.dat'', 2147483648)]"
proof -
  have h1: "\<not> mkdirErr demo_disk_io" by (simp add: demo_disk_io_def)
  have h2: "\<forall>j. \<not> createErr (fileIO demo_disk_io j) \<and> writeErr (fileIO demo_disk_io j) = None"
    by (simp add: demo_disk_io_def)
  have e: "files demo_state = []" by (simp add: demo_state_def NewResourceMonitor_def)
  then have h3: "\<forall>j. tempFileName (now (fileIO demo_disk_io j)) (int j) \<notin> fst ` set (files demo_state)"
    by simp
  let ?B = "12 * 1024 * 1024 * 1024 :: nat"
  from createTempFiles_split [OF h1 h2 h3, of ?B]
  have "files (createTempFiles demo_disk_io ?B demo_state) =
           files demo_state @ zip (map (\<lambda>j. tempFileName (now (fileIO demo_disk_io j)) (int j))
                            [0 ..< ?B div fileSize + (if ?B mod fileSize = 0 then 0 else 1)])
                        (replicate (?B div fileSize) fileSize
                           @ (if ?B mod fileSize = 0 then [] else [?B mod fileSize]))"
    by blast
  moreover have "zip (map (\<lambda>j. tempFileName (now (fileIO demo_disk_io j)) (int j))
                            [0 ..< ?B div fileSize + (if ?B mod fileSize = 0 then 0 else 1)])
                        (replicate (?B div fileSize) fileSize
                           @ (if ?B mod fileSize = 0 then [] else [?B mod fileSize]))
      = [(''go_occupy_temp_1700000000_0.dat'', 5368709120),
        (''go_occupy_temp_1700000000_1.dat'', 5368709120),
        (''go_occupy_temp_1700000000_2.dat'', 2147483648)]"
    by code_simp
  ultimately show ?thesis using h1 h2 e by simp
qed

subsection \<open>The tick\<close>

lemma fold_os_Remove_frame:
  "fold os_Remove ns s = s\<lparr>files := files (fold os_Remove ns s)\<rparr>"
proof (induction ns arbitrary: s)
  case Nil
  show ?case by simp
next
  case (Cons n ns)
  have "fold os_Remove ns (os_Remove n s)
        = (os_Remove n s)\<lparr>files := files (fold os_Remove ns (os_Remove n s))\<rparr>"
    by (rule Cons.IH)
  also have "\<dots> = s\<lparr>files := files (fold os_Remove ns (os_Remove n s))\<rparr>"
    by (simp add: os_Remove_def)
  finally show ?case by simp
qed


lemma createTempFiles_frame:
  "createTempFiles io B s = s\<lparr>files := files (createTempFiles io B s)\<rparr>"
  using createTempFiles_loop_frame [of "fileIO io" B 0 s] by (simp add: createTempFiles_def)

lemma cleanupTempFiles_frame:
  "cleanupTempFiles s = s\<lparr>files := files (cleanupTempFiles s)\<rparr>"
  using fold_os_Remove_frame [of "filter isTempFile (map fst (files s))" s]
  by (simp add: cleanupTempFiles_def)


lemma adjustDiskUsage_frame:
  "adjustDiskUsage io c t s = s\<lparr>files := files (adjustDiskUsage io c t s)\<rparr>"
  using createTempFiles_frame [of io "adjustTargetBytes (DiskPercent (Config s)) c t" s]
    cleanupTempFiles_frame [of s]
  by (simp add: adjustDiskUsage_def)

lemma adjustMemoryUsage_frame:
  "adjustMemoryUsage c t s = s\<lparr>AllocatedMemory := AllocatedMemory (adjustMemoryUsage c t s)\<rparr>"
  by (simp add: adjustMemoryUsage_def allocateMemory_def releaseMemory_def)

lemma adjustCPUWorkers_frame:
  "adjustCPUWorkers w s = s\<lparr>ActiveCPULoad := ActiveCPULoad (adjustCPUWorkers w s),
      targetCPUWorkers := targetCPUWorkers (adjustCPUWorkers w s),
      currentCPUWorkers := currentCPUWorkers (adjustCPUWorkers w s)\<rparr>"
  by (simp add: adjustCPUWorkers_def startCPULoadInternal_def stopCPULoadInternal_def)

lemma adjustCPUUsage_frame:
  "adjustCPUUsage c s = s\<lparr>ActiveCPULoad := ActiveCPULoad (adjustCPUUsage c s),
      targetCPUWorkers := targetCPUWorkers (adjustCPUUsage c s),
      currentCPUWorkers := currentCPUWorkers (adjustCPUUsage c s)\<rparr>"
  using adjustCPUWorkers_frame [of "cpuTargetWorkers s" s] adjustCPUWorkers_frame [of 0 s]
  by (simp add: adjustCPUUsage_def)

lemma adjust_trace [simp]:
  "trace (adjustDiskUsage io c t s) = trace s"
  "trace (adjustMemoryUsage c t s) = trace s"
  "trace (adjustCPUUsage c s) = trace s"
  by (subst adjustDiskUsage_frame, simp, subst adjustMemoryUsage_frame, simp,
      subst adjustCPUUsage_frame, simp)

lemma adjust_env [simp]:
  "undeletable (adjustDiskUsage io c t s) = undeletable s"
  "undeletable (adjustMemoryUsage c t s) = undeletable s"
  "undeletable (adjustCPUUsage c s) = undeletable s"
  "badPattern (adjustDiskUsage io c t s) = badPattern s"
  "badPattern (adjustMemoryUsage c t s) = badPattern s"
  "badPattern (adjustCPUUsage c s) = badPattern s"
  by (subst adjustDiskUsage_frame, simp, subst adjustMemoryUsage_frame, simp,
      subst adjustCPUUsage_frame, simp, subst adjustDiskUsage_frame, simp,
      subst adjustMemoryUsage_frame, simp, subst adjustCPUUsage_frame, simp)

lemma record_call_simps [simp]:
  "trace (record_call c s) = trace s @ [c]"
  "undeletable (record_call c s) = undeletable s"
  "badPattern (record_call c s) = badPattern s"
  "stop (record_call c s) = stop s"
  "files (record_call c s) = files s"
  "AllocatedMemory (record_call c s) = AllocatedMemory s"
  "ActiveCPULoad (record_call c s) = ActiveCPULoad s"
  by (simp_all add: record_call_def)


lemma monitorAndAdjust_env [simp]:
  "undeletable (monitorAndAdjust env s) = undeletable s"
  "badPattern (monitorAndAdjust env s) = badPattern s"
  by (simp_all add: monitorAndAdjust_def monitorAndAdjust_body_def Let_def
      split: option.splits prod.splits)













subsection \<open>Shutdown\<close>

lemma cleanupMemory_fields [simp]:
  "AllocatedMemory (cleanupMemory s) = []"
  "ActiveCPULoad (cleanupMemory s) = ActiveCPULoad s"
  "trace (cleanupMemory s) = trace s"
  "stop (cleanupMemory s) = stop s"
  "files (cleanupMemory s) = files s"
  "undeletable (cleanupMemory s) = undeletable s"
  "badPattern (cleanupMemory s) = badPattern s"
  by (simp_all add: cleanupMemory_def)

lemma stopCPULoad_fields [simp]:
  "\<not> ActiveCPULoad (stopCPULoad s)"
  "trace (stopCPULoad s) = trace s"
  "stop (stopCPULoad s) = stop s"
  "files (stopCPULoad s) = files s"
  "undeletable (stopCPULoad s) = undeletable s"
  "badPattern (stopCPULoad s) = badPattern s"
  by (simp_all add: stopCPULoad_def stopCPULoadInternal_def)





lemma Stop_idempotent: "Stop (Stop s) = Stop s" "stop (Stop s)"
  by (simp_all add: Stop_def)

lemma Stop_again: "stop s \<Longrightarrow> Stop s = s"
  by (simp add: Stop_def)

text \<open>
  C3. Two goroutines call \<^verbatim>\<open>Stop\<close> at the same time. When both receive from
  \<open>stop\<close> before either closes it, both go on to \<^verbatim>\<open>close(rm.stop)\<close>, and the second
  close panics. When the second call starts after the first has closed the channel, it
  returns at once.
\<close>

theorem Stop_concurrent_double_close:
  "Stop_run [G1, G2, G1, G2] (False, AtReceive, AtReceive) = (True, AtWait, Panicked)
   \<and> Stop_run [G1, G1, G1, G2, G2] (False, AtReceive, AtReceive) = (True, Returned, Returned)"
  by code_simp

end
